theory Spec2Isabelle
  imports Complex_Main "HOL-Library.Sublist" "HOL-Library.Log_Nat"
begin

section \<open>JavaScript strings and arrays\<close>

text \<open>
  The hook \<^verbatim>\<open>useRAG\<close> (file \<^verbatim>\<open>src/hooks/useRAG.ts\<close>) works on JavaScript strings. A string
  is modelled as a \<^typ>\<open>string\<close>, one \<^typ>\<open>char\<close> per UTF-16 code unit, so the model covers the
  strings whose code units are below 256 (ISO 8859-1); \<^verbatim>\<open>s.length\<close> is \<^term>\<open>length s\<close>.
  On these strings the classes \<^verbatim>\<open>\s\<close>, \<^verbatim>\<open>\w\<close> and \<^verbatim>\<open>toLowerCase\<close> are the finite tables below.
\<close>

definition isWhiteSpace :: "char \<Rightarrow> bool" where
  \<comment> \<open>\<^verbatim>\<open>\s\<close> and the characters removed by \<^verbatim>\<open>trim\<close>: TAB, LF, VT, FF, CR, SP, NBSP\<close>
  "isWhiteSpace c =
     (c \<in> set [CHR 0x09, CHR 0x0A, CHR 0x0B, CHR 0x0C, CHR 0x0D, CHR '' '', CHR 0xA0])"

definition isWordChar :: "char \<Rightarrow> bool" where
  \<comment> \<open>\<^verbatim>\<open>\w\<close>, that is \<^verbatim>\<open>[A-Za-z0-9_]\<close>\<close>
  "isWordChar c =
     (c \<in> set ''abcdefghijklmnopqrstuvwxyzABCDEFGHIJKLMNOPQRSTUVWXYZ0123456789_'')"

definition isSentenceEnd :: "char \<Rightarrow> bool" where
  \<comment> \<open>the class \<^verbatim>\<open>[.!?]\<close>\<close>
  "isSentenceEnd c = (c \<in> set ''.!?'')"

definition upperTable :: "(char \<times> char) list" where
  "upperTable = zip
     (''ABCDEFGHIJKLMNOPQRSTUVWXYZ'' @
      [CHR 0xC0, CHR 0xC1, CHR 0xC2, CHR 0xC3, CHR 0xC4, CHR 0xC5, CHR 0xC6, CHR 0xC7,
       CHR 0xC8, CHR 0xC9, CHR 0xCA, CHR 0xCB, CHR 0xCC, CHR 0xCD, CHR 0xCE, CHR 0xCF,
       CHR 0xD0, CHR 0xD1, CHR 0xD2, CHR 0xD3, CHR 0xD4, CHR 0xD5, CHR 0xD6,
       CHR 0xD8, CHR 0xD9, CHR 0xDA, CHR 0xDB, CHR 0xDC, CHR 0xDD, CHR 0xDE])
     (''abcdefghijklmnopqrstuvwxyz'' @
      [CHR 0xE0, CHR 0xE1, CHR 0xE2, CHR 0xE3, CHR 0xE4, CHR 0xE5, CHR 0xE6, CHR 0xE7,
       CHR 0xE8, CHR 0xE9, CHR 0xEA, CHR 0xEB, CHR 0xEC, CHR 0xED, CHR 0xEE, CHR 0xEF,
       CHR 0xF0, CHR 0xF1, CHR 0xF2, CHR 0xF3, CHR 0xF4, CHR 0xF5, CHR 0xF6,
       CHR 0xF8, CHR 0xF9, CHR 0xFA, CHR 0xFB, CHR 0xFC, CHR 0xFD, CHR 0xFE])"

definition toLowerCaseChar :: "char \<Rightarrow> char" where
  "toLowerCaseChar c = (case map_of upperTable c of Some l \<Rightarrow> l | None \<Rightarrow> c)"

definition toLowerCase :: "string \<Rightarrow> string" where
  "toLowerCase s = map toLowerCaseChar s"

definition trim :: "string \<Rightarrow> string" where
  \<comment> \<open>\<^verbatim>\<open>s.trim()\<close>: white space removed at both ends\<close>
  "trim s = rev (dropWhile isWhiteSpace (rev (dropWhile isWhiteSpace s)))"

text \<open>
  \<^verbatim>\<open>s.split(/[d]+/)\<close> for a character class \<open>d\<close>: the scan takes the piece up to the next
  character of the class, skips the whole run of such characters (the \<^verbatim>\<open>+\<close> is greedy) and
  goes on; the text after the last run is the last piece, also when it is empty, and the
  empty string gives one empty piece.
\<close>

function splitRegex :: "(char \<Rightarrow> bool) \<Rightarrow> string \<Rightarrow> string list" where
  "splitRegex d s =
     (let piece = takeWhile (\<lambda>c. \<not> d c) s; rest = dropWhile (\<lambda>c. \<not> d c) s
      in if rest = [] then [piece] else piece # splitRegex d (dropWhile d rest))"
  by pat_completeness auto
termination
proof (relation "measure (\<lambda>(d, s). length s)")
  show "wf (measure (\<lambda>(d :: char \<Rightarrow> bool, s :: string). length s))" by simp
next
  fix d :: "char \<Rightarrow> bool" and s piece rest
  assume rest: "rest = dropWhile (\<lambda>c. \<not> d c) s" and ne: "rest \<noteq> []"
  have "d (hd rest)"
    using ne hd_dropWhile[of "\<lambda>c. \<not> d c" s] rest by auto
  with ne have "length (dropWhile d rest) < length rest"
    by (cases rest) (auto simp: le_imp_less_Suc length_dropWhile_le)
  also have "length rest \<le> length s"
    unfolding rest by (rule length_dropWhile_le)
  finally show "((d, dropWhile d rest), (d, s)) \<in> measure (\<lambda>(d, s). length s)"
    by simp
qed

declare splitRegex.simps [simp del]

text \<open>\<^verbatim>\<open>s.split(' ')\<close>: every single separator character ends a piece.\<close>

function splitString :: "char \<Rightarrow> string \<Rightarrow> string list" where
  "splitString sep s =
     (let piece = takeWhile (\<lambda>c. c \<noteq> sep) s; rest = dropWhile (\<lambda>c. c \<noteq> sep) s
      in if rest = [] then [piece] else piece # splitString sep (tl rest))"
  by pat_completeness auto
termination
proof (relation "measure (\<lambda>(sep, s). length s)")
  show "wf (measure (\<lambda>(sep :: char, s :: string). length s))" by simp
next
  fix sep :: char and s piece rest
  assume rest: "rest = dropWhile (\<lambda>c. c \<noteq> sep) s" and ne: "rest \<noteq> []"
  from ne have "length (tl rest) < length rest" by (cases rest) simp_all
  also have "length rest \<le> length s"
    unfolding rest by (rule length_dropWhile_le)
  finally show "((sep, tl rest), (sep, s)) \<in> measure (\<lambda>(sep, s). length s)"
    by simp
qed

declare splitString.simps [simp del]

fun join :: "string \<Rightarrow> string list \<Rightarrow> string" where
  "join sep [] = []"
| "join sep [x] = x"
| "join sep (x # y # ys) = x @ sep @ join sep (y # ys)"

definition sliceFrom :: "int \<Rightarrow> 'a list \<Rightarrow> 'a list" where
  \<comment> \<open>\<^verbatim>\<open>xs.slice(k)\<close>: a negative start counts from the end\<close>
  "sliceFrom k xs =
     (let len = int (length xs);
          from = (if k < 0 then max (len + k) 0 else min k len)
      in drop (nat from) xs)"

definition sliceTo :: "int \<Rightarrow> 'a list \<Rightarrow> 'a list" where
  \<comment> \<open>\<^verbatim>\<open>xs.slice(0, k)\<close>: a negative end counts from the end\<close>
  "sliceTo k xs =
     (let len = int (length xs);
          final = (if k < 0 then max (len + k) 0 else min k len)
      in take (nat final) xs)"

definition str_includes :: "string \<Rightarrow> string \<Rightarrow> bool" where
  \<comment> \<open>\<^verbatim>\<open>t.includes(p)\<close>: \<open>p\<close> occurs in \<open>t\<close> as a contiguous substring\<close>
  "str_includes t p = sublist p t"

section \<open>The chunker\<close>

text \<open>
  \<^verbatim>\<open>text.split(/[.!?]+/).filter(s => s.trim().length > 0)\<close>
\<close>

definition sentencesOf :: "string \<Rightarrow> string list" where
  "sentencesOf text = filter (\<lambda>s. length (trim s) > 0) (splitRegex isSentenceEnd text)"

definition overlapStart :: "int \<Rightarrow> int" where
  \<comment> \<open>the start \<^verbatim>\<open>-overlap / 10\<close> as \<^verbatim>\<open>slice\<close> reads it: truncated towards zero\<close>
  "overlapStart overlap = (if 0 \<le> overlap then - (overlap div 10) else (- overlap) div 10)"

text \<open>
  One round of the \<^verbatim>\<open>for\<close> loop of \<^verbatim>\<open>chunkText\<close>, on the pair of \<^verbatim>\<open>chunks\<close> and
  \<^verbatim>\<open>currentChunk\<close>.
\<close>

definition chunkStep :: "int \<Rightarrow> int \<Rightarrow> string list \<times> string \<Rightarrow> string \<Rightarrow> string list \<times> string" where
  "chunkStep chunkSize overlap st sentence =
     (let chunks = fst st; currentChunk = snd st
      in if int (length currentChunk) + int (length sentence) > chunkSize \<and> length currentChunk > 0
         then
           (let words = splitString (CHR '' '') currentChunk
            in (chunks @ [trim currentChunk],
                join '' '' (sliceFrom (overlapStart overlap) words) @ '' '' @ sentence))
         else (chunks, currentChunk @ ((if currentChunk \<noteq> [] then ''. '' else []) @ sentence)))"

definition accumulate :: "string \<Rightarrow> int \<Rightarrow> int \<Rightarrow> string list" where
  \<comment> \<open>\<^verbatim>\<open>chunks\<close> after the loop and the last flush\<close>
  "accumulate text chunkSize overlap =
     (let st = foldl (chunkStep chunkSize overlap) ([], []) (sentencesOf text);
          chunks = fst st; currentChunk = snd st
      in if trim currentChunk \<noteq> [] then chunks @ [trim currentChunk] else chunks)"

definition chunkText :: "string \<Rightarrow> int \<Rightarrow> int \<Rightarrow> string list" where
  "chunkText text chunkSize overlap =
     (let chunks = accumulate text chunkSize overlap
      in if length chunks > 0 then chunks else [text])"

definition chunkTextDefault :: "string \<Rightarrow> string list" where
  \<comment> \<open>the call \<^verbatim>\<open>chunkText(content)\<close> with the default parameters\<close>
  "chunkTextDefault text = chunkText text 500 50"

section \<open>Numbers\<close>

text \<open>
  A JavaScript number is an IEEE 754 binary64 value. It is modelled as \<open>NaN\<close> or as the exact
  rational value of a finite double, and every arithmetic operation rounds its exact result to
  the nearest double, ties to the even significand (\<open>toDouble\<close>): a significand of 53 bits
  times a power of two. The exponent is not bounded in the model. The numbers of the hook stay
  far inside the range of the normal doubles: it divides two set sizes, adds 0.3 once per
  phrase and subtracts two scores, so no operation overflows or reaches the subnormal numbers,
  and the infinite values do not occur. The only division is \<^verbatim>\<open>intersection.size / union.size\<close>,
  which is \<open>0 / 0 = NaN\<close> when the union is empty (the intersection is then empty too, see
  \<open>intersection_size_le_union\<close>).
\<close>

datatype number = NaN | Num rat

definition roundHalfEven :: "rat \<Rightarrow> int" where
  \<comment> \<open>the nearest integer, the even one of the two when both are equally near\<close>
  "roundHalfEven q =
     (let f = \<lfloor>q\<rfloor>; d = q - of_int f
      in if d < 1 / 2 then f else if 1 / 2 < d then f + 1 else if even f then f else f + 1)"

definition exponentOf :: "rat \<Rightarrow> int" where
  \<comment> \<open>for a positive \<open>x\<close>, the \<open>e\<close> with \<open>2 ^ e \<le> x < 2 ^ (e + 1)\<close>, from the bit lengths of the
      numerator and the denominator\<close>
  "exponentOf x =
     (let d = bitlen (fst (quotient_of x)) - bitlen (snd (quotient_of x))
      in if power_int 2 d \<le> x then d else d - 1)"

definition toDouble :: "rat \<Rightarrow> rat" where
  \<comment> \<open>round to nearest, ties to even, with 53 bits: the unit in the last place is
      \<open>2 ^ (e - 52)\<close>\<close>
  "toDouble x =
     (if x = 0 then 0
      else (let ulp = power_int 2 (exponentOf \<bar>x\<bar> - 52)
            in sgn x * of_int (roundHalfEven (\<bar>x\<bar> / ulp)) * ulp))"

definition divideSizes :: "nat \<Rightarrow> nat \<Rightarrow> number" where
  "divideSizes i u = (if u = 0 then NaN else Num (toDouble (of_nat i / of_nat u)))"

fun plusNumber :: "number \<Rightarrow> number \<Rightarrow> number" where
  "plusNumber (Num a) (Num b) = Num (toDouble (a + b))"
| "plusNumber _ _ = NaN"

fun minusNumber :: "number \<Rightarrow> number \<Rightarrow> number" where
  "minusNumber (Num a) (Num b) = Num (toDouble (a - b))"
| "minusNumber _ _ = NaN"

definition literal03 :: number where
  \<comment> \<open>the literal \<^verbatim>\<open>0.3\<close>: the double nearest to 3/10\<close>
  "literal03 = Num (toDouble (3 / 10))"

definition literal01 :: number where
  \<comment> \<open>the literal \<^verbatim>\<open>0.1\<close>: the double nearest to 1/10\<close>
  "literal01 = Num (toDouble (1 / 10))"

fun mathMin :: "number \<Rightarrow> number \<Rightarrow> number" where
  \<comment> \<open>\<^verbatim>\<open>Math.min\<close> is \<open>NaN\<close> as soon as one argument is\<close>
  "mathMin (Num a) (Num b) = Num (min a b)"
| "mathMin _ _ = NaN"

fun greaterThan :: "number \<Rightarrow> number \<Rightarrow> bool" where
  \<comment> \<open>\<^verbatim>\<open>a > b\<close>: false when one side is \<open>NaN\<close>\<close>
  "greaterThan (Num a) (Num b) = (a > b)"
| "greaterThan _ _ = False"

fun greaterEq :: "number \<Rightarrow> number \<Rightarrow> bool" where
  \<comment> \<open>\<^verbatim>\<open>a >= b\<close>: false when one side is \<open>NaN\<close>\<close>
  "greaterEq (Num a) (Num b) = (a \<ge> b)"
| "greaterEq _ _ = False"

section \<open>The similarity scorer\<close>

definition setAdd :: "'a \<Rightarrow> 'a list \<Rightarrow> 'a list" where
  "setAdd x s = (if x \<in> set s then s else s @ [x])"

definition newSet :: "'a list \<Rightarrow> 'a list" where
  \<comment> \<open>\<^verbatim>\<open>new Set(xs)\<close>: the distinct elements in the order of their first occurrence\<close>
  "newSet xs = fold setAdd xs []"

definition tokens :: "string \<Rightarrow> string list" where
  \<comment> \<open>\<^verbatim>\<open>s.toLowerCase().split(/\W+/).filter(w => w.length > 2)\<close>\<close>
  "tokens s = filter (\<lambda>w. length w > 2) (splitRegex (\<lambda>c. \<not> isWordChar c) (toLowerCase s))"

text \<open>
  One attempt of \<^verbatim>\<open>\b\w+\s+\w+\b\<close> at the head of \<open>s\<close>, where \<open>prevWord\<close> says whether the
  character before it is a word character. The three groups are greedy and each is followed
  by a character outside its class, so giving characters back never helps: the attempt
  succeeds exactly when the maximal runs do. The result is the matched text and the rest.
\<close>

definition phraseAt :: "bool \<Rightarrow> string \<Rightarrow> (string \<times> string) option" where
  "phraseAt prevWord s =
     (let w1 = takeWhile isWordChar s; r1 = dropWhile isWordChar s;
          sp = takeWhile isWhiteSpace r1; r2 = dropWhile isWhiteSpace r1;
          w2 = takeWhile isWordChar r2; r3 = dropWhile isWordChar r2
      in if \<not> prevWord \<and> w1 \<noteq> [] \<and> sp \<noteq> [] \<and> w2 \<noteq> [] then Some (w1 @ sp @ w2, r3) else None)"

text \<open>
  \<^verbatim>\<open>s.match(/\b\w+\s+\w+\b/g) || []\<close>: the matches from left to right, each attempt starting
  where the last match ended, or one character further after a failure.
\<close>

function matchAll :: "bool \<Rightarrow> string \<Rightarrow> string list" where
  "matchAll prevWord [] = []"
| "matchAll prevWord (c # cs) =
     (case phraseAt prevWord (c # cs) of
        Some (m, rest) \<Rightarrow> m # matchAll True rest
      | None \<Rightarrow> matchAll (isWordChar c) cs)"
  by pat_completeness auto
termination
proof (relation "measure (\<lambda>(p, s). length s)")
  show "wf (measure (\<lambda>(p :: bool, s :: string). length s))" by simp
next
  fix prevWord c cs x m rest
  assume "phraseAt prevWord (c # cs) = Some x" and "(m, rest) = x"
  then have a: "phraseAt prevWord (c # cs) = Some (m, rest)" by simp
  let ?r1 = "dropWhile isWordChar (c # cs)"
  let ?r2 = "dropWhile isWhiteSpace ?r1"
  from a have w1: "takeWhile isWordChar (c # cs) \<noteq> []" and r: "rest = dropWhile isWordChar ?r2"
    by (auto simp: phraseAt_def Let_def split: if_splits)
  from w1 have "isWordChar c" by (auto split: if_splits)
  then have "length ?r1 \<le> length cs" by (simp add: length_dropWhile_le)
  moreover have "length rest \<le> length ?r2" unfolding r by (rule length_dropWhile_le)
  moreover have "length ?r2 \<le> length ?r1" by (rule length_dropWhile_le)
  ultimately show "((True, rest), (prevWord, c # cs)) \<in> measure (\<lambda>(p, s). length s)"
    by simp
next
  fix prevWord :: bool and c :: char and cs :: string
  show "((isWordChar c, cs), (prevWord, c # cs)) \<in> measure (\<lambda>(p, s). length s)"
    by simp
qed

definition queryPhrases :: "string \<Rightarrow> string list" where
  "queryPhrases query = matchAll False (toLowerCase query)"

definition phraseBoost :: "string \<Rightarrow> string \<Rightarrow> number" where
  \<comment> \<open>the running \<^verbatim>\<open>phraseBoost\<close> after the loop over the phrases\<close>
  "phraseBoost query text =
     fold (\<lambda>phrase boost.
             if str_includes (toLowerCase text) phrase then plusNumber boost literal03 else boost)
          (queryPhrases query) (Num 0)"

definition jaccard :: "string \<Rightarrow> string \<Rightarrow> number" where
  "jaccard query text =
     (let querySet = newSet (tokens query);
          textSet = newSet (tokens text);
          intersection = newSet (filter (\<lambda>w. w \<in> set textSet) querySet);
          union = newSet (querySet @ textSet)
      in divideSizes (length intersection) (length union))"

definition calculateSimilarity :: "string \<Rightarrow> string \<Rightarrow> number" where
  "calculateSimilarity query text =
     mathMin (plusNumber (jaccard query text) (phraseBoost query text)) (Num 1)"

section \<open>Documents and the store\<close>

text \<open>
  The fields \<^verbatim>\<open>id\<close>, \<^verbatim>\<open>title\<close>, \<^verbatim>\<open>content\<close> and \<^verbatim>\<open>size\<close> of the interface \<^verbatim>\<open>Document\<close> carry
  the prefix \<open>doc_\<close> here; a \<^verbatim>\<open>Date\<close> is its time value in milliseconds. The store is the React
  state \<^verbatim>\<open>documents\<close>, an array of documents.
\<close>

record Document =
  doc_id :: string
  doc_title :: string
  doc_content :: string
  chunks :: "string list"
  uploadedAt :: nat
  doc_size :: nat

record Source =
  title :: string
  content :: string
  relevance :: number

record Candidate =
  chunk :: string
  docTitle :: string
  score :: number

fun toString :: "nat \<Rightarrow> string" where
  \<comment> \<open>\<^verbatim>\<open>n.toString()\<close> for a time value: its decimal digits\<close>
  "toString n =
     (if n < 10 then [''0123456789'' ! n]
      else toString (n div 10) @ [''0123456789'' ! (n mod 10)])"

declare toString.simps [simp del]

text \<open>
  \<^verbatim>\<open>addDocument\<close> reads the clock twice, for \<^verbatim>\<open>Date.now()\<close> and for \<^verbatim>\<open>new Date()\<close>; the two
  readings are the arguments \<open>now\<close> and \<open>date\<close>. It returns the next state of the store.
\<close>

definition addDocument :: "nat \<Rightarrow> nat \<Rightarrow> string \<Rightarrow> string \<Rightarrow> Document list \<Rightarrow> Document list" where
  "addDocument now date title' content' prev =
     (let chunks' = chunkTextDefault content';
          newDoc = \<lparr>doc_id = toString now, doc_title = title', doc_content = content',
                    chunks = chunks', uploadedAt = date, doc_size = length content'\<rparr>
      in prev @ [newDoc])"

definition deleteDocument :: "string \<Rightarrow> Document list \<Rightarrow> Document list" where
  "deleteDocument i prev = filter (\<lambda>doc. doc_id doc \<noteq> i) prev"

text \<open>
  The upload button of the document panel: \<^verbatim>\<open>handleUpload\<close> calls \<^verbatim>\<open>onUpload\<close>, which is
  \<^verbatim>\<open>addDocument\<close>, with the trimmed title and the trimmed content, when neither is empty.
\<close>

definition handleUpload :: "nat \<Rightarrow> nat \<Rightarrow> string \<Rightarrow> string \<Rightarrow> Document list \<Rightarrow> Document list" where
  "handleUpload now date newDocTitle newDocContent prev =
     (if trim newDocTitle \<noteq> [] \<and> trim newDocContent \<noteq> []
      then addDocument now date (trim newDocTitle) (trim newDocContent) prev
      else prev)"

section \<open>The retriever\<close>

definition threshold :: number where
  "threshold = literal01"

definition collectChunk :: "string \<Rightarrow> Document \<Rightarrow> string \<Rightarrow> Candidate list \<Rightarrow> Candidate list" where
  \<comment> \<open>the body of the inner \<^verbatim>\<open>forEach\<close>\<close>
  "collectChunk query doc chunk' allChunks =
     (let score' = calculateSimilarity query chunk'
      in if greaterThan score' threshold
         then allChunks @ [\<lparr>chunk = chunk', docTitle = doc_title doc, score = score'\<rparr>]
         else allChunks)"

definition collectAll :: "Document list \<Rightarrow> string \<Rightarrow> Candidate list" where
  \<comment> \<open>\<^verbatim>\<open>allChunks\<close> after the two nested \<^verbatim>\<open>forEach\<close> loops\<close>
  "collectAll documents query =
     fold (\<lambda>doc allChunks. fold (collectChunk query doc) (chunks doc) allChunks) documents []"

text \<open>
  \<^verbatim>\<open>xs.sort(cmp)\<close>. The language fixes the result of a sort with a consistent comparator: it is
  ordered by the comparator and stable. The model is the insertion sort that puts an element
  behind the elements before which the comparator does not place it (\<^verbatim>\<open>cmp(x, y) > 0\<close>), and
  it is run from the last element to the first.
\<close>

fun insertBy :: "('a \<Rightarrow> 'a \<Rightarrow> number) \<Rightarrow> 'a \<Rightarrow> 'a list \<Rightarrow> 'a list" where
  "insertBy cmp x [] = [x]"
| "insertBy cmp x (y # ys) =
     (if greaterThan (cmp x y) (Num 0) then y # insertBy cmp x ys else x # y # ys)"

definition sortBy :: "('a \<Rightarrow> 'a \<Rightarrow> number) \<Rightarrow> 'a list \<Rightarrow> 'a list" where
  "sortBy cmp xs = foldr (insertBy cmp) xs []"

definition byScore :: "Candidate \<Rightarrow> Candidate \<Rightarrow> number" where
  \<comment> \<open>\<^verbatim>\<open>(a, b) => b.score - a.score\<close>\<close>
  "byScore a b = minusNumber (score b) (score a)"

definition toSource :: "Candidate \<Rightarrow> Source" where
  "toSource item = \<lparr>title = docTitle item, content = chunk item, relevance = score item\<rparr>"

definition retrieveRelevantChunks :: "Document list \<Rightarrow> string \<Rightarrow> int \<Rightarrow> Source list" where
  "retrieveRelevantChunks documents query topK =
     map toSource (sliceTo topK (sortBy byScore (collectAll documents query)))"

section \<open>Measures and example stores\<close>

definition utf8ByteLength :: "string \<Rightarrow> nat" where
  \<comment> \<open>the bytes of the UTF-8 file a content was read from: two for a code unit from 128 on\<close>
  "utf8ByteLength s = sum_list (map (\<lambda>c. if of_char c < (128 :: nat) then 1 else 2) s)"

definition exampleStore :: "Document list" where
  "exampleStore =
     addDocument 7 8 ''other'' ''A cat sat there and a dog barked at the cat''
       (addDocument 6 6 ''more'' ''The cat sat''
         (addDocument 5 5 ''pets'' ''The cat sat on the mat. The dog ran fast.'' []))"

definition unrelatedStore :: "Document list" where
  "unrelatedStore = addDocument 9 9 ''notes'' ''Quarterly revenue figures'' []"

section \<open>Notions used in the statements\<close>

fun pairUp :: "string list \<Rightarrow> string list" where
  \<comment> \<open>the words taken two by two: first and second, third and fourth, and so on\<close>
  "pairUp (a # b # ws) = (a @ '' '' @ b) # pairUp ws"
| "pairUp [a] = []"
| "pairUp [] = []"

definition chunkInv :: "string list \<times> string \<Rightarrow> bool" where
  \<comment> \<open>the invariant of the loop: no finished chunk is empty, and the buffer is empty or has
      a character that is not white space\<close>
  "chunkInv st = (list_all (\<lambda>c. c \<noteq> []) (fst st) \<and> (snd st = [] \<or> trim (snd st) \<noteq> []))"

definition covered :: "string list \<times> string \<Rightarrow> string \<Rightarrow> bool" where
  \<comment> \<open>the trimmed sentence lies whole in a finished chunk or in the trimmed buffer\<close>
  "covered st s = (list_ex (sublist (trim s)) (fst st) \<or> sublist (trim s) (trim (snd st)))"

section \<open>Properties of the rounding\<close>

lemma quotient_pos:
  assumes "0 < x"
  shows "0 < fst (quotient_of x)" "0 < snd (quotient_of x)"
    "x = of_int (fst (quotient_of x)) / of_int (snd (quotient_of x))"
proof -
  obtain p q where pq: "quotient_of x = (p, q)" by (cases "quotient_of x")
  then have q: "0 < q" by (rule quotient_of_denom_pos)
  from pq have x: "x = of_int p / of_int q" by (rule quotient_of_div)
  with assms q have "0 < p" by (simp add: zero_less_divide_iff)
  with q x pq show "0 < fst (quotient_of x)" "0 < snd (quotient_of x)"
    "x = of_int (fst (quotient_of x)) / of_int (snd (quotient_of x))" by simp_all
qed

lemma exponentOf_bounds:
  assumes "0 < x"
  shows "power_int 2 (exponentOf x) \<le> x" and "x < power_int 2 (exponentOf x + 1)"
proof -
  define p q where "p = fst (quotient_of x)" and "q = snd (quotient_of x)"
  have p: "0 < p" and q: "0 < q" and x: "x = of_int p / of_int q"
    using quotient_pos[OF assms] by (simp_all add: p_def q_def)
  define bp bq where "bp = bitlen p" and "bq = bitlen q"
  from bitlen_bounds[OF p] have p1: "(2 :: int) ^ nat (bp - 1) \<le> p" and p2: "p < 2 ^ nat bp"
    by (simp_all add: bp_def)
  from bitlen_bounds[OF q] have q1: "(2 :: int) ^ nat (bq - 1) \<le> q" and q2: "q < 2 ^ nat bq"
    by (simp_all add: bq_def)
  have bp1: "1 \<le> bp" using p bitlen_eq_zero_iff[of p] bitlen_nonneg[of p] by (simp add: bp_def)
  have bq1: "1 \<le> bq" using q bitlen_eq_zero_iff[of q] bitlen_nonneg[of q] by (simp add: bq_def)
  have P1: "(power_int 2 (bp - 1) :: rat) \<le> of_int p"
  proof -
    have "(of_int (2 ^ nat (bp - 1)) :: rat) \<le> of_int p" using p1 by (simp only: of_int_le_iff)
    then show ?thesis using bp1 by (simp add: power_int_def)
  qed
  have P2: "(of_int p :: rat) < power_int 2 bp"
  proof -
    have "(of_int p :: rat) < of_int (2 ^ nat bp)" using p2 by (simp only: of_int_less_iff)
    then show ?thesis using bp1 by (simp add: power_int_def)
  qed
  have Q1: "(power_int 2 (bq - 1) :: rat) \<le> of_int q"
  proof -
    have "(of_int (2 ^ nat (bq - 1)) :: rat) \<le> of_int q" using q1 by (simp only: of_int_le_iff)
    then show ?thesis using bq1 by (simp add: power_int_def)
  qed
  have Q2: "(of_int q :: rat) < power_int 2 bq"
  proof -
    have "(of_int q :: rat) < of_int (2 ^ nat bq)" using q2 by (simp only: of_int_less_iff)
    then show ?thesis using bq1 by (simp add: power_int_def)
  qed
  have qpos: "(0 :: rat) < of_int q" using q by simp
  have low: "(power_int 2 (bp - bq - 1) :: rat) \<le> x"
  proof -
    have "(power_int 2 (bp - bq - 1) :: rat) = power_int 2 (bp - 1) / power_int 2 bq"
      using power_int_diff[of "2 :: rat" "bp - 1" bq] by (simp add: algebra_simps)
    also have "\<dots> \<le> of_int p / of_int q"
      using P1 Q2 qpos p by (intro frac_le) simp_all
    finally show ?thesis by (simp add: x)
  qed
  have up: "x < (power_int 2 (bp - bq + 1) :: rat)"
  proof -
    have "of_int p / of_int q < (power_int 2 bp :: rat) / of_int q"
      using P2 qpos by (simp add: divide_strict_right_mono)
    also have "\<dots> \<le> power_int 2 bp / power_int 2 (bq - 1)"
      using Q1 qpos by (intro divide_left_mono mult_pos_pos) simp_all
    also have "\<dots> = power_int 2 (bp - bq + 1)"
      using power_int_diff[of "2 :: rat" bp "bq - 1"] by (simp add: algebra_simps)
    finally show ?thesis by (simp add: x)
  qed
  have e: "exponentOf x = (if power_int 2 (bp - bq) \<le> x then bp - bq else bp - bq - 1)"
    by (simp add: exponentOf_def Let_def p_def q_def bp_def bq_def)
  show "power_int 2 (exponentOf x) \<le> x" using low by (simp add: e)
  show "x < power_int 2 (exponentOf x + 1)" using up by (auto simp: e)
qed

lemma roundHalfEven_ge_floor: "\<lfloor>q\<rfloor> \<le> roundHalfEven q"
  by (simp add: roundHalfEven_def Let_def)

lemma roundHalfEven_near: "\<bar>of_int (roundHalfEven q) - q\<bar> \<le> 1 / 2"
proof -
  have "of_int \<lfloor>q\<rfloor> \<le> q" "q < of_int \<lfloor>q\<rfloor> + 1" by linarith+
  then show ?thesis by (auto simp: roundHalfEven_def Let_def)
qed

lemma toDouble_pos:
  assumes "0 < x"
  shows "0 < toDouble x"
proof -
  define ulp :: rat where "ulp = power_int 2 (exponentOf x - 52)"
  have ulp: "0 < ulp" by (simp add: ulp_def)
  have "power_int 2 (exponentOf x) \<le> x" using assms by (rule exponentOf_bounds)
  moreover have "(power_int 2 (exponentOf x) :: rat) = power_int 2 52 * ulp"
    using power_int_add[of "2 :: rat" 52 "exponentOf x - 52"] by (simp add: ulp_def)
  ultimately have "power_int 2 52 * ulp \<le> x" by simp
  then have "(1 :: rat) \<le> x / ulp" using ulp by (simp add: pos_le_divide_eq)
  then have "1 \<le> \<lfloor>x / ulp\<rfloor>" by (simp add: le_floor_iff)
  then have "0 < roundHalfEven (x / ulp)" using roundHalfEven_ge_floor[of "x / ulp"] by linarith
  then have "0 < of_int (roundHalfEven (x / ulp)) * ulp" using ulp by simp
  then show ?thesis using assms by (simp add: toDouble_def Let_def ulp_def)
qed

lemma toDouble_near:
  assumes "0 < x"
  shows "\<bar>toDouble x - x\<bar> \<le> power_int 2 (exponentOf x - 53)"
proof -
  define ulp :: rat where "ulp = power_int 2 (exponentOf x - 52)"
  have ulp: "0 < ulp" by (simp add: ulp_def)
  have half: "(power_int 2 (exponentOf x - 53) :: rat) = ulp / 2"
    using power_int_diff[of "2 :: rat" "exponentOf x - 52" 1] by (simp add: ulp_def algebra_simps)
  have t: "toDouble x = of_int (roundHalfEven (x / ulp)) * ulp"
    using assms by (simp add: toDouble_def Let_def ulp_def)
  have "toDouble x - x = (of_int (roundHalfEven (x / ulp)) - x / ulp) * ulp"
    using ulp by (simp add: t field_simps)
  then have "\<bar>toDouble x - x\<bar> = \<bar>of_int (roundHalfEven (x / ulp)) - x / ulp\<bar> * ulp"
    using ulp by (simp add: abs_mult)
  also have "\<dots> \<le> 1 / 2 * ulp"
    using roundHalfEven_near[of "x / ulp"] ulp by (intro mult_right_mono) simp_all
  finally show ?thesis by (simp add: half)
qed

lemma toDouble_minus: "toDouble (- x) = - toDouble x"
  by (simp add: toDouble_def Let_def)

lemma toDouble_zero: "toDouble 0 = 0"
  by (simp add: toDouble_def)

lemma toDouble_nonneg: "0 \<le> x \<Longrightarrow> 0 \<le> toDouble x"
  using toDouble_pos[of x] toDouble_zero by (cases "x = 0") (auto simp: less_imp_le)

lemma toDouble_pos_iff: "0 < toDouble x \<longleftrightarrow> 0 < x"
proof (cases "0 < x")
  case True
  then show ?thesis by (simp add: toDouble_pos)
next
  case False
  then have "0 \<le> toDouble (- x)" by (intro toDouble_nonneg) simp
  with False show ?thesis by (simp add: toDouble_minus)
qed

lemma literal_values:
  "literal03 = Num (5404319552844595 / 18014398509481984)"
  "literal01 = Num (3602879701896397 / 36028797018963968)"
  by code_simp+

section \<open>Properties of the scorer\<close>

subsection \<open>Sets of tokens\<close>

lemma fold_setAdd_set: "set (fold setAdd xs acc) = set acc \<union> set xs"
  by (induction xs arbitrary: acc) (auto simp: setAdd_def)

lemma fold_setAdd_distinct: "distinct acc \<Longrightarrow> distinct (fold setAdd xs acc)"
  by (induction xs arbitrary: acc) (auto simp: setAdd_def)

lemma set_newSet: "set (newSet xs) = set xs"
  by (simp add: newSet_def fold_setAdd_set)

lemma distinct_newSet: "distinct (newSet xs)"
  by (simp add: newSet_def fold_setAdd_distinct)

lemma length_newSet: "length (newSet xs) = card (set xs)"
  using distinct_card[OF distinct_newSet, of xs] by (simp add: set_newSet)

lemma newSet_empty_iff: "newSet xs = [] \<longleftrightarrow> xs = []"
  using set_newSet[of xs] by (metis set_empty)

lemma intersection_size_le_union:
  "length (newSet (filter (\<lambda>w. w \<in> set (newSet ts)) (newSet qs))) \<le> length (newSet (newSet qs @ newSet ts))"
proof -
  have "card {x \<in> set qs. x \<in> set ts} \<le> card (set qs \<union> set ts)"
    by (rule card_mono) auto
  then show ?thesis by (simp add: length_newSet set_newSet)
qed

lemma jaccard_cases:
  "(tokens query = [] \<and> tokens text = [] \<and> jaccard query text = NaN) \<or>
   (\<exists>j. jaccard query text = Num j \<and> 0 \<le> j \<and> \<not> (tokens query = [] \<and> tokens text = []))"
proof (cases "tokens query = [] \<and> tokens text = []")
  case True
  then show ?thesis by (simp add: jaccard_def divideSizes_def newSet_def)
next
  case False
  let ?i = "length (newSet (filter (\<lambda>w. w \<in> set (newSet (tokens text))) (newSet (tokens query))))"
  let ?u = "length (newSet (newSet (tokens query) @ newSet (tokens text)))"
  from False have "newSet (newSet (tokens query) @ newSet (tokens text)) \<noteq> []"
    by (simp add: newSet_empty_iff)
  then have u: "?u > 0" by simp
  have j: "jaccard query text = Num (toDouble (of_nat ?i / of_nat ?u))"
    using u by (simp add: jaccard_def divideSizes_def Let_def)
  have "0 \<le> toDouble (of_nat ?i / of_nat ?u)" by (rule toDouble_nonneg) simp
  then show ?thesis using j False by blast
qed

lemma fold_boost:
  "fold (\<lambda>phrase boost. if P phrase then f boost else boost) ps b = (f ^^ length (filter P ps)) b"
  by (induction ps arbitrary: b) (simp_all add: funpow_swap1)

lemma phraseBoost_count:
  "phraseBoost query text =
     ((\<lambda>boost. plusNumber boost literal03)
        ^^ length (filter (str_includes (toLowerCase text)) (queryPhrases query))) (Num 0)"
  unfolding phraseBoost_def by (rule fold_boost)

lemma boost_nonneg: "\<exists>b. ((\<lambda>boost. plusNumber boost literal03) ^^ n) (Num 0) = Num b \<and> 0 \<le> b"
proof (induction n)
  case 0
  then show ?case by simp
next
  case (Suc n)
  then obtain b where b: "((\<lambda>boost. plusNumber boost literal03) ^^ n) (Num 0) = Num b" "0 \<le> b"
    by blast
  have "0 \<le> toDouble (b + 5404319552844595 / 18014398509481984)"
    using b(2) by (intro toDouble_nonneg) simp
  with b(1) show ?case by (simp add: literal_values)
qed

lemma calculateSimilarity_cases:
  "(tokens query = [] \<and> tokens text = [] \<and> calculateSimilarity query text = NaN) \<or>
   (\<exists>r. calculateSimilarity query text = Num r \<and> 0 \<le> r \<and> r \<le> 1)"
proof -
  obtain b where b: "phraseBoost query text = Num b" "0 \<le> b"
    using boost_nonneg by (auto simp: phraseBoost_count)
  from jaccard_cases[of query "text"] show ?thesis
  proof
    assume "tokens query = [] \<and> tokens text = [] \<and> jaccard query text = NaN"
    then show ?thesis by (simp add: calculateSimilarity_def)
  next
    assume "\<exists>j. jaccard query text = Num j \<and> 0 \<le> j \<and> \<not> (tokens query = [] \<and> tokens text = [])"
    then obtain j where j: "jaccard query text = Num j" "0 \<le> j" by blast
    have "0 \<le> toDouble (j + b)" using j(2) b(2) by (intro toDouble_nonneg) simp
    with j b have "calculateSimilarity query text = Num (min (toDouble (j + b)) 1)"
        "0 \<le> min (toDouble (j + b)) 1" "min (toDouble (j + b)) 1 \<le> 1"
      by (simp_all add: calculateSimilarity_def)
    then show ?thesis by blast
  qed
qed

lemma calculateSimilarity_clamped: "\<not> greaterThan (calculateSimilarity query text) (Num 1)"
  using calculateSimilarity_cases[of query "text"] by auto

subsection \<open>Phrases\<close>

lemma isWordChar_lower:
  assumes "isWordChar c"
  shows "isWordChar (toLowerCaseChar c)"
proof -
  have "list_all (\<lambda>c. isWordChar (toLowerCaseChar c))
          ''abcdefghijklmnopqrstuvwxyzABCDEFGHIJKLMNOPQRSTUVWXYZ0123456789_''"
    by code_simp
  then have "\<forall>c \<in> set ''abcdefghijklmnopqrstuvwxyzABCDEFGHIJKLMNOPQRSTUVWXYZ0123456789_''.
               isWordChar (toLowerCaseChar c)"
    by (simp only: list_all_iff)
  moreover from assms
  have "c \<in> set ''abcdefghijklmnopqrstuvwxyzABCDEFGHIJKLMNOPQRSTUVWXYZ0123456789_''"
    by (simp only: isWordChar_def)
  ultimately show ?thesis by (rule bspec)
qed

lemma isWordChar_not_space: "isWordChar c \<Longrightarrow> \<not> isWhiteSpace c"
  by (auto simp: isWordChar_def isWhiteSpace_def)

lemma space_facts:
  "\<not> isWordChar (CHR '' '')" "isWhiteSpace (CHR '' '')" "toLowerCaseChar (CHR '' '') = CHR '' ''"
  by (simp_all add: isWordChar_def isWhiteSpace_def toLowerCaseChar_def upperTable_def)

lemma toLowerCase_join:
  "toLowerCase (join '' '' ws) = join '' '' (map toLowerCase ws)"
  by (induction "'' ''" ws rule: join.induct) (simp_all add: toLowerCase_def space_facts)

lemma phraseAt_True: "phraseAt True s = None"
  by (simp add: phraseAt_def Let_def)

lemma matchAll_True_word: "list_all isWordChar w \<Longrightarrow> matchAll True w = []"
  by (induction w) (simp_all add: phraseAt_True)

lemma matchAll_single_word:
  assumes "list_all isWordChar w"
  shows "matchAll False w = []"
proof (cases w)
  case Nil
  then show ?thesis by simp
next
  case (Cons c cs)
  with assms have c: "isWordChar c" and cs: "list_all isWordChar cs" by simp_all
  from assms have dw: "dropWhile isWordChar w = []"
    by (simp add: list_all_iff)
  have "phraseAt False w = None"
    unfolding phraseAt_def Let_def dw by simp
  with Cons c have "matchAll False w = matchAll True cs" by simp
  with cs show ?thesis by (simp add: matchAll_True_word)
qed

lemma phraseAt_words:
  assumes a: "a \<noteq> []" "list_all isWordChar a" and b: "b \<noteq> []" "list_all isWordChar b"
    and tail: "tail = [] \<or> \<not> isWordChar (hd tail)"
  shows "phraseAt False (a @ '' '' @ b @ tail) = Some (a @ '' '' @ b, tail)"
proof -
  have t1: "takeWhile isWordChar (a @ '' '' @ b @ tail) = a"
    and d1: "dropWhile isWordChar (a @ '' '' @ b @ tail) = '' '' @ b @ tail"
    using a by (simp_all add: list_all_iff space_facts)
  have hb: "\<not> isWhiteSpace (hd b)"
    using b by (cases b) (simp_all add: isWordChar_not_space)
  have t2: "takeWhile isWhiteSpace ('' '' @ b @ tail) = '' ''"
    and d2: "dropWhile isWhiteSpace ('' '' @ b @ tail) = b @ tail"
    using b hb by (cases b; simp add: space_facts)+
  have t3: "takeWhile isWordChar (b @ tail) = b" and d3: "dropWhile isWordChar (b @ tail) = tail"
    using b tail by (cases tail; simp add: list_all_iff)+
  show ?thesis
    unfolding phraseAt_def Let_def t1 d1 t2 d2 t3 d3 using a b by simp
qed

lemma matchAll_Some:
  "s \<noteq> [] \<Longrightarrow> phraseAt p s = Some (m, r) \<Longrightarrow> matchAll p s = m # matchAll True r"
  by (cases s) simp_all

lemma matchAll_words:
  "\<forall>w \<in> set ws. w \<noteq> [] \<and> list_all isWordChar w \<Longrightarrow> matchAll False (join '' '' ws) = pairUp ws"
proof (induction ws rule: pairUp.induct)
  case (1 a b ws)
  define tail where "tail = (if ws = [] then [] else '' '' @ join '' '' ws)"
  have j: "join '' '' (a # b # ws) = a @ '' '' @ b @ tail"
    by (cases ws) (simp_all add: tail_def)
  have tl: "tail = [] \<or> \<not> isWordChar (hd tail)"
    by (simp add: tail_def space_facts)
  have ph: "phraseAt False (a @ '' '' @ b @ tail) = Some (a @ '' '' @ b, tail)"
    using 1(2) tl by (intro phraseAt_words) simp_all
  have ne: "a @ '' '' @ b @ tail \<noteq> []" by simp
  have rest: "matchAll True tail = pairUp ws"
  proof (cases "ws = []")
    case True
    then show ?thesis by (simp add: tail_def)
  next
    case False
    then have "matchAll True tail = matchAll False (join '' '' ws)"
      by (simp add: tail_def phraseAt_True space_facts)
    also have "\<dots> = pairUp ws" using 1 by simp
    finally show ?thesis .
  qed
  show ?case unfolding j using matchAll_Some[OF ne ph] rest by simp
next
  case (2 a)
  then show ?case by (simp add: matchAll_single_word)
next
  case 3
  then show ?case by simp
qed

lemma queryPhrases_words:
  assumes "\<forall>w \<in> set ws. w \<noteq> [] \<and> list_all isWordChar w"
  shows "queryPhrases (join '' '' ws) = pairUp (map toLowerCase ws)"
proof -
  have "\<forall>w \<in> set (map toLowerCase ws). w \<noteq> [] \<and> list_all isWordChar w"
    using assms by (auto simp: toLowerCase_def list_all_iff isWordChar_lower)
  then show ?thesis
    by (simp add: queryPhrases_def toLowerCase_join matchAll_words)
qed

section \<open>Properties of the retriever\<close>

subsection \<open>Collecting the candidates\<close>

lemma fold_collectChunk:
  "fold (collectChunk query doc) cs acc =
     acc @ map (\<lambda>c. \<lparr>chunk = c, docTitle = doc_title doc, score = calculateSimilarity query c\<rparr>)
             (filter (\<lambda>c. greaterThan (calculateSimilarity query c) threshold) cs)"
  by (induction cs arbitrary: acc) (simp_all add: collectChunk_def Let_def)

lemma fold_collectDoc:
  "fold (\<lambda>doc allChunks. fold (collectChunk query doc) (chunks doc) allChunks) ds acc =
     acc @ concat (map (\<lambda>doc.
             map (\<lambda>c. \<lparr>chunk = c, docTitle = doc_title doc, score = calculateSimilarity query c\<rparr>)
                 (filter (\<lambda>c. greaterThan (calculateSimilarity query c) threshold) (chunks doc))) ds)"
  by (induction ds arbitrary: acc) (simp_all add: fold_collectChunk)

lemma collectAll_scan:
  "collectAll documents query =
     concat (map (\<lambda>doc.
       map (\<lambda>c. \<lparr>chunk = c, docTitle = doc_title doc, score = calculateSimilarity query c\<rparr>)
           (filter (\<lambda>c. greaterThan (calculateSimilarity query c) threshold) (chunks doc))) documents)"
  by (simp add: collectAll_def fold_collectDoc)

lemma collectAll_clears:
  "x \<in> set (collectAll documents query) \<Longrightarrow> greaterThan (score x) threshold"
  by (auto simp: collectAll_scan)

lemma greaterThan_threshold_Num:
  "greaterThan x threshold \<Longrightarrow> \<exists>r. x = Num r"
  by (cases x) simp_all

subsection \<open>The sort\<close>

lemma set_insertBy: "set (insertBy cmp x xs) = insert x (set xs)"
  by (induction xs) auto

lemma set_sortBy: "set (sortBy cmp xs) = set xs"
  unfolding sortBy_def by (induction xs) (simp_all add: set_insertBy)

lemma byScore_Num:
  "score a = Num x \<Longrightarrow> score b = Num y \<Longrightarrow> greaterThan (byScore a b) (Num 0) \<longleftrightarrow> x < y"
  by (simp add: byScore_def toDouble_pos_iff)

lemma byScore_pos_differ: "greaterThan (byScore a b) (Num 0) \<Longrightarrow> score a \<noteq> score b"
  by (cases "score a"; cases "score b") (auto simp: byScore_def toDouble_pos_iff)

lemma sorted_insertBy:
  assumes "\<forall>y \<in> set xs. score y \<noteq> NaN" and "score x \<noteq> NaN"
    and "sorted_wrt (\<lambda>a b. greaterEq (score a) (score b)) xs"
  shows "sorted_wrt (\<lambda>a b. greaterEq (score a) (score b)) (insertBy byScore x xs)"
  using assms
proof (induction xs)
  case Nil
  then show ?case by simp
next
  case (Cons y ys)
  obtain a where a: "score x = Num a" using Cons.prems(2) by (cases "score x") auto
  obtain b where b: "score y = Num b" using Cons.prems(1) by (cases "score y") auto
  show ?case
  proof (cases "greaterThan (byScore x y) (Num 0)")
    case True
    then have ab: "a < b" using a b by (simp add: byScore_Num)
    have ih: "sorted_wrt (\<lambda>a b. greaterEq (score a) (score b)) (insertBy byScore x ys)"
      using Cons by simp
    have "\<forall>z \<in> set (insertBy byScore x ys). greaterEq (score y) (score z)"
      using Cons.prems(3) a b ab by (auto simp: set_insertBy)
    with ih True show ?thesis by simp
  next
    case False
    then have ba: "b \<le> a" using a b by (simp add: byScore_Num)
    have "\<forall>z \<in> set ys. greaterEq (score x) (score z)"
    proof
      fix z assume z: "z \<in> set ys"
      then have yz: "greaterEq (score y) (score z)" using Cons.prems(3) by simp
      then obtain c where c: "score z = Num c" by (cases "score z") (simp_all add: b)
      with yz b have "c \<le> b" by simp
      with ba a c show "greaterEq (score x) (score z)" by simp
    qed
    with False Cons.prems(3) a b ba show ?thesis by simp
  qed
qed

lemma sorted_sortBy:
  "\<forall>y \<in> set xs. score y \<noteq> NaN \<Longrightarrow>
   sorted_wrt (\<lambda>a b. greaterEq (score a) (score b)) (sortBy byScore xs)"
proof (induction xs)
  case Nil
  then show ?case by (simp add: sortBy_def)
next
  case (Cons x xs)
  have "sorted_wrt (\<lambda>a b. greaterEq (score a) (score b)) (insertBy byScore x (sortBy byScore xs))"
    using Cons by (intro sorted_insertBy) (simp_all add: set_sortBy)
  then show ?case by (simp add: sortBy_def)
qed

lemma filter_insertBy:
  "filter (\<lambda>c. score c = s) (insertBy byScore x xs) =
     (if score x = s then x # filter (\<lambda>c. score c = s) xs else filter (\<lambda>c. score c = s) xs)"
  by (induction xs) (auto dest: byScore_pos_differ)

lemma sortBy_stable:
  "filter (\<lambda>c. score c = s) (sortBy byScore xs) = filter (\<lambda>c. score c = s) xs"
  unfolding sortBy_def by (induction xs) (simp_all add: filter_insertBy)

lemma sliceTo_prefix: "prefix (sliceTo k xs) xs"
  by (simp add: sliceTo_def Let_def take_is_prefix)

lemma sliceTo_length: "0 \<le> k \<Longrightarrow> int (length (sliceTo k xs)) \<le> k"
  by (simp add: sliceTo_def Let_def)

lemma sliceTo_subset: "set (sliceTo k xs) \<subseteq> set xs"
  by (simp add: sliceTo_def Let_def set_take_subset)

lemma sorted_wrt_sliceTo: "sorted_wrt P xs \<Longrightarrow> sorted_wrt P (sliceTo k xs)"
  unfolding sliceTo_def Let_def by (rule sorted_wrt_take)

lemma sorted_candidates:
  "sorted_wrt (\<lambda>a b. greaterEq (score a) (score b)) (sortBy byScore (collectAll documents query))"
proof (rule sorted_sortBy, rule ballI)
  fix y assume "y \<in> set (collectAll documents query)"
  then have "greaterThan (score y) threshold" by (rule collectAll_clears)
  then show "score y \<noteq> NaN" by (auto dest: greaterThan_threshold_Num)
qed

subsection \<open>Two stores evaluated\<close>

lemma exampleStore_value:
  "exampleStore =
    [\<lparr>doc_id = ''5'', doc_title = ''pets'',
       doc_content = ''The cat sat on the mat. The dog ran fast.'',
       chunks = [''The cat sat on the mat.  The dog ran fast''], uploadedAt = 5, doc_size = 41\<rparr>,
     \<lparr>doc_id = ''6'', doc_title = ''more'', doc_content = ''The cat sat'',
       chunks = [''The cat sat''], uploadedAt = 6, doc_size = 11\<rparr>,
     \<lparr>doc_id = ''7'', doc_title = ''other'',
       doc_content = ''A cat sat there and a dog barked at the cat'',
       chunks = [''A cat sat there and a dog barked at the cat''], uploadedAt = 8, doc_size = 43\<rparr>]"
  by code_simp

text \<open>
  The relevances are the doubles 0.9666666666666666 (from \<open>2/3 + 0.3\<close>) and
  0.5857142857142856 (from \<open>2/7 + 0.3\<close>).
\<close>

lemma exampleStore_retrieve:
  "retrieveRelevantChunks exampleStore ''the cat'' 3 =
    [\<lparr>title = ''more'', content = ''The cat sat'',
       relevance = Num (4353479639791479 / 4503599627370496)\<rparr>,
     \<lparr>title = ''pets'', content = ''The cat sat on the mat.  The dog ran fast'',
       relevance = Num (2637822638888433 / 4503599627370496)\<rparr>,
     \<lparr>title = ''other'', content = ''A cat sat there and a dog barked at the cat'',
       relevance = Num (2637822638888433 / 4503599627370496)\<rparr>]"
  by code_simp

lemma exampleStore_retrieve_neg:
  "retrieveRelevantChunks exampleStore ''the cat'' (- 1) =
    [\<lparr>title = ''more'', content = ''The cat sat'',
       relevance = Num (4353479639791479 / 4503599627370496)\<rparr>,
     \<lparr>title = ''pets'', content = ''The cat sat on the mat.  The dog ran fast'',
       relevance = Num (2637822638888433 / 4503599627370496)\<rparr>]"
  by code_simp

lemma unrelatedStore_value:
  "unrelatedStore =
     [\<lparr>doc_id = ''9'', doc_title = ''notes'', doc_content = ''Quarterly revenue figures'',
        chunks = [''Quarterly revenue figures''], uploadedAt = 9, doc_size = 25\<rparr>]"
  by code_simp

lemma unrelated_score: "calculateSimilarity ''the cat'' ''Quarterly revenue figures'' = Num 0"
  by code_simp

section \<open>Properties of the chunker\<close>

subsection \<open>Trimming\<close>

lemma dropWhile_all_iff: "(\<forall>x \<in> set (dropWhile P xs). P x) \<longleftrightarrow> (\<forall>x \<in> set xs. P x)"
proof
  assume a: "\<forall>x \<in> set (dropWhile P xs). P x"
  have "dropWhile P xs = []"
  proof (rule ccontr)
    assume ne: "dropWhile P xs \<noteq> []"
    then have "\<not> P (hd (dropWhile P xs))" by (rule hd_dropWhile)
    moreover from ne have "hd (dropWhile P xs) \<in> set (dropWhile P xs)" by simp
    ultimately show False using a by blast
  qed
  then show "\<forall>x \<in> set xs. P x" by (simp add: dropWhile_eq_Nil_conv)
next
  assume "\<forall>x \<in> set xs. P x"
  then show "\<forall>x \<in> set (dropWhile P xs). P x"
    using set_dropWhileD by fastforce
qed

lemma trim_empty_iff: "trim s = [] \<longleftrightarrow> (\<forall>c \<in> set s. isWhiteSpace c)"
  by (simp add: trim_def dropWhile_eq_Nil_conv dropWhile_all_iff)

lemma trim_append_ink: "trim s \<noteq> [] \<Longrightarrow> trim (a @ s) \<noteq> []" "trim s \<noteq> [] \<Longrightarrow> trim (s @ b) \<noteq> []"
  by (auto simp: trim_empty_iff)

lemma trim_no_space_ends:
  assumes "s \<noteq> []" "\<not> isWhiteSpace (hd s)" "\<not> isWhiteSpace (last s)"
  shows "trim s = s"
proof -
  from assms have d: "dropWhile isWhiteSpace s = s" by (cases s) simp_all
  from assms have "rev s \<noteq> []" "\<not> isWhiteSpace (hd (rev s))" by (simp_all add: hd_rev)
  then have "dropWhile isWhiteSpace (rev s) = rev s" by (cases "rev s") simp_all
  with d show ?thesis by (simp add: trim_def)
qed

lemma char_facts:
  "isWhiteSpace (CHR '' '')" "\<not> isWhiteSpace (CHR ''a'')"
  "\<not> isSentenceEnd (CHR '' '')" "\<not> isSentenceEnd (CHR ''a'')"
  by (simp_all add: isWhiteSpace_def isSentenceEnd_def)

subsection \<open>The loop of the chunker\<close>

lemma sentencesOf_ink: "s \<in> set (sentencesOf t) \<Longrightarrow> trim s \<noteq> []"
  by (simp add: sentencesOf_def)

lemma chunkStep_inv:
  assumes "chunkInv st" "trim sentence \<noteq> []"
  shows "chunkInv (chunkStep chunkSize overlap st sentence)"
proof (cases "int (length (snd st)) + int (length sentence) > chunkSize \<and> length (snd st) > 0")
  case True
  then have "snd st \<noteq> []" by auto
  with assms(1) have "trim (snd st) \<noteq> []" by (simp add: chunkInv_def)
  moreover have "trim (join '' '' (sliceFrom (overlapStart overlap) (splitString (CHR '' '') (snd st)))
                       @ '' '' @ sentence) \<noteq> []"
    using assms(2) by (intro trim_append_ink)
  ultimately show ?thesis
    using True assms(1) by (simp add: chunkStep_def chunkInv_def Let_def)
next
  case False
  have "trim (snd st @ (if snd st \<noteq> [] then ''. '' else []) @ sentence) \<noteq> []"
    using assms(2) by (intro trim_append_ink)
  then show ?thesis
    using False assms(1) by (auto simp: chunkStep_def chunkInv_def Let_def)
qed

lemma foldl_chunkStep_inv:
  "chunkInv st \<Longrightarrow> \<forall>s \<in> set ss. trim s \<noteq> [] \<Longrightarrow> chunkInv (foldl (chunkStep chunkSize overlap) st ss)"
  by (induction ss arbitrary: st) (simp_all add: chunkStep_inv)

lemma accumulate_nonempty_chunks:
  "c \<in> set (accumulate t chunkSize overlap) \<Longrightarrow> c \<noteq> []"
proof -
  let ?st = "foldl (chunkStep chunkSize overlap) ([], []) (sentencesOf t)"
  have "chunkInv ?st"
    by (rule foldl_chunkStep_inv) (simp_all add: chunkInv_def sentencesOf_ink)
  then have "list_all (\<lambda>c. c \<noteq> []) (fst ?st)" by (simp add: chunkInv_def)
  then show "c \<in> set (accumulate t chunkSize overlap) \<Longrightarrow> c \<noteq> []"
    by (auto simp: accumulate_def Let_def list_all_iff split: if_splits)
qed

subsection \<open>A text without sentence ends\<close>

lemma splitRegex_no_delimiter:
  "\<forall>c \<in> set s. \<not> d c \<Longrightarrow> splitRegex d s = [s]"
  by (subst splitRegex.simps) (simp add: Let_def dropWhile_eq_Nil_conv)

lemma sentencesOf_one:
  "\<forall>c \<in> set t. \<not> isSentenceEnd c \<Longrightarrow> sentencesOf t = (if trim t \<noteq> [] then [t] else [])"
  by (simp add: sentencesOf_def splitRegex_no_delimiter)

lemma accumulate_one:
  "\<forall>c \<in> set t. \<not> isSentenceEnd c \<Longrightarrow>
   accumulate t chunkSize overlap = (if trim t \<noteq> [] then [trim t] else [])"
  by (simp add: accumulate_def sentencesOf_one chunkStep_def Let_def trim_def)

lemma chunkText_one:
  "\<forall>c \<in> set t. \<not> isSentenceEnd c \<Longrightarrow>
   chunkText t chunkSize overlap = [if trim t \<noteq> [] then trim t else t]"
  by (simp add: chunkText_def accumulate_one)

subsection \<open>Whole sentences\<close>

lemma dropWhile_keeps_inner:
  "u \<noteq> [] \<Longrightarrow> \<not> P (hd u) \<Longrightarrow> \<exists>a'. dropWhile P (a @ u @ b) = a' @ u @ b"
proof (induction a)
  case Nil
  then have "dropWhile P (u @ b) = u @ b" by (cases u) simp_all
  then show ?case by (intro exI[of _ "[]"]) simp
next
  case (Cons x a)
  show ?case
  proof (cases "P x")
    case True
    with Cons show ?thesis by simp
  next
    case False
    then show ?thesis by (intro exI[of _ "x # a"]) simp
  qed
qed

lemma sublist_trim:
  assumes u: "u \<noteq> []" "\<not> isWhiteSpace (hd u)" "\<not> isWhiteSpace (last u)" and sub: "sublist u t"
  shows "sublist u (trim t)"
proof -
  from sub obtain a b where t: "t = a @ u @ b" by (auto simp: sublist_def)
  from u dropWhile_keeps_inner[of u isWhiteSpace a b] obtain a' where
    a': "dropWhile isWhiteSpace (a @ u @ b) = a' @ u @ b" by blast
  from u have ru: "rev u \<noteq> []" "\<not> isWhiteSpace (hd (rev u))" by (simp_all add: hd_rev)
  from ru dropWhile_keeps_inner[of "rev u" isWhiteSpace "rev b" "rev a'"] obtain b' where
    b': "dropWhile isWhiteSpace (rev b @ rev u @ rev a') = b' @ rev u @ rev a'" by blast
  have "trim t = a' @ u @ rev b'"
    by (simp add: trim_def t a' b')
  then show ?thesis by (auto simp: sublist_def)
qed

lemma last_dropWhile_nonempty: "dropWhile P xs \<noteq> [] \<Longrightarrow> last (dropWhile P xs) = last xs"
  by (induction xs) (auto split: if_splits)

lemma trim_ends:
  assumes "trim s \<noteq> []"
  shows "\<not> isWhiteSpace (hd (trim s))" and "\<not> isWhiteSpace (last (trim s))"
proof -
  let ?d = "dropWhile isWhiteSpace s"
  let ?e = "dropWhile isWhiteSpace (rev ?d)"
  from assms have e: "?e \<noteq> []" by (simp add: trim_def)
  have d: "?d \<noteq> []"
  proof
    assume a: "?d = []"
    show False using e unfolding a by simp
  qed
  have "hd (trim s) = last ?e" using e by (simp add: trim_def hd_rev)
  also have "\<dots> = last (rev ?d)" using e by (rule last_dropWhile_nonempty)
  also have "\<dots> = hd ?d" using d by (simp add: last_rev)
  finally show "\<not> isWhiteSpace (hd (trim s))" using hd_dropWhile[OF d] by simp
  have "last (trim s) = hd ?e" using e by (simp add: trim_def last_rev)
  then show "\<not> isWhiteSpace (last (trim s))" using hd_dropWhile[OF e] by simp
qed

lemma sublist_trim_self: "sublist (trim s) s"
proof -
  let ?d = "dropWhile isWhiteSpace s"
  have "suffix (dropWhile isWhiteSpace (rev ?d)) (rev ?d)" by (rule suffix_dropWhile)
  then have "prefix (trim s) ?d" by (simp add: trim_def suffix_to_prefix)
  moreover have "suffix ?d s" by (rule suffix_dropWhile)
  ultimately show ?thesis
    by (meson prefix_imp_sublist suffix_imp_sublist sublist_order.order_trans)
qed

lemma sublist_trim_into:
  assumes "sublist s t"
  shows "sublist (trim s) (trim t)"
proof (cases "trim s = []")
  case True
  then show ?thesis by simp
next
  case False
  have "sublist (trim s) t"
    using sublist_trim_self assms by (rule sublist_order.order_trans)
  with False show ?thesis by (intro sublist_trim trim_ends) simp_all
qed

lemma chunkStep_covers_new: "covered (chunkStep chunkSize overlap st s) s"
proof -
  have "sublist (trim s) (trim (x @ '' '' @ s))" for x
    by (rule sublist_trim_into) (metis sublist_append_leftI append.assoc)
  moreover have "sublist (trim s) (trim (x @ y @ s))" for x y
    by (rule sublist_trim_into) (metis sublist_append_leftI append.assoc)
  ultimately show ?thesis
    by (simp add: covered_def chunkStep_def Let_def)
qed

lemma chunkStep_covers_old:
  assumes "covered st s0"
  shows "covered (chunkStep chunkSize overlap st s) s0"
proof (cases "int (length (snd st)) + int (length s) > chunkSize \<and> length (snd st) > 0")
  case True
  with assms show ?thesis
    by (auto simp: covered_def chunkStep_def Let_def list_ex_iff)
next
  case False
  let ?cur = "snd st @ (if snd st \<noteq> [] then ''. '' else []) @ s"
  have keep: "sublist (trim s0) (trim ?cur)" if "sublist (trim s0) (trim (snd st))"
  proof (cases "trim s0 = []")
    case True
    then show ?thesis by simp
  next
    case ne: False
    have "sublist (trim s0) (snd st)"
      using that sublist_trim_self by (rule sublist_order.order_trans)
    then have "sublist (trim s0) ?cur"
      by (meson sublist_append_rightI sublist_order.order_trans)
    with ne show ?thesis by (intro sublist_trim trim_ends) simp_all
  qed
  from assms False show ?thesis
    using keep by (auto simp: covered_def chunkStep_def Let_def)
qed

lemma foldl_chunkStep_covers:
  "(s \<in> set ss \<or> covered st s) \<Longrightarrow> covered (foldl (chunkStep chunkSize overlap) st ss) s"
proof (induction ss arbitrary: st)
  case Nil
  then show ?case by simp
next
  case (Cons x ss)
  from Cons.prems consider "s = x" | "s \<in> set ss" | "covered st s" by auto
  then have "s \<in> set ss \<or> covered (chunkStep chunkSize overlap st x) s"
  proof cases
    case 1
    then show ?thesis by (simp add: chunkStep_covers_new)
  next
    case 2
    then show ?thesis by simp
  next
    case 3
    then show ?thesis by (simp add: chunkStep_covers_old)
  qed
  then show ?case using Cons.IH by simp
qed

lemma sentence_in_chunk:
  assumes "s \<in> set (sentencesOf t)"
  shows "\<exists>c \<in> set (chunkText t chunkSize overlap). sublist (trim s) c"
proof -
  let ?st = "foldl (chunkStep chunkSize overlap) ([], []) (sentencesOf t)"
  have cov: "covered ?st s" using assms by (intro foldl_chunkStep_covers) simp
  have ink: "trim s \<noteq> []" using assms by (rule sentencesOf_ink)
  have "\<exists>c \<in> set (accumulate t chunkSize overlap). sublist (trim s) c"
  proof (cases "trim (snd ?st) = []")
    case True
    with cov ink show ?thesis
      by (auto simp: covered_def accumulate_def Let_def list_ex_iff)
  next
    case False
    with cov show ?thesis
      by (auto simp: covered_def accumulate_def Let_def list_ex_iff)
  qed
  then show ?thesis by (auto simp: chunkText_def Let_def)
qed

subsection \<open>The upload path\<close>

lemma trim_trim: "trim (trim s) = trim s"
proof (cases "trim s = []")
  case True
  show ?thesis unfolding True by (simp add: trim_def)
next
  case False
  then show ?thesis by (intro trim_no_space_ends trim_ends)
qed

lemma set_trim_subset: "set (trim s) \<subseteq> set s"
  using sublist_trim_self[of s] by (rule set_mono_sublist)

lemma handleUpload_long_sentence:
  assumes "length (trim content') = 1200" and "\<forall>c \<in> set content'. \<not> isSentenceEnd c"
    and "trim title' \<noteq> []"
  shows "map chunks (handleUpload now date title' content' []) = [[trim content']]"
proof -
  from assms(1) have ne: "trim content' \<noteq> []" by auto
  from assms(2) set_trim_subset[of content']
  have "\<forall>c \<in> set (trim content'). \<not> isSentenceEnd c" by blast
  then have "chunkText (trim content') 500 50 = [trim content']"
    using ne by (simp add: chunkText_one trim_trim)
  with ne assms(3) show ?thesis
    by (simp add: handleUpload_def addDocument_def chunkTextDefault_def)
qed

section \<open>The claims\<close>

text \<open>
  Claim C1 says that the score is a number of the interval from 0 to 1 for all inputs, and 0
  when both token sets are empty. The code divides the two sizes without a guard: for the
  empty query and the empty chunk, and for the query \<^verbatim>\<open>hi\<close> and the chunk \<^verbatim>\<open>ok\<close> (no token is
  longer than two characters), the score is \<open>NaN\<close>. On every other input the score is in the
  interval (\<open>calculateSimilarity_cases\<close>).
\<close>

theorem calculateSimilarity_empty_union_NaN:
  "calculateSimilarity [] [] = NaN \<and> calculateSimilarity ''hi'' ''ok'' = NaN"
  by code_simp

text \<open>
  Claim C2, as amended: for every store, every query and every integer \<open>topK\<close> that is not
  negative, the retriever returns at most \<open>topK\<close> sources, every returned source has a
  relevance strictly above the threshold 0.1, and the result is empty for the empty store and
  for a store none of whose chunks clears the threshold.
\<close>

theorem retrieve_bounds:
  assumes "0 \<le> topK"
  shows "int (length (retrieveRelevantChunks documents query topK)) \<le> topK \<and>
         (\<forall>s \<in> set (retrieveRelevantChunks documents query topK). greaterThan (relevance s) threshold) \<and>
         retrieveRelevantChunks [] query topK = [] \<and>
         ((\<forall>doc \<in> set documents. \<forall>c \<in> set (chunks doc).
              \<not> greaterThan (calculateSimilarity query c) threshold) \<longrightarrow>
            retrieveRelevantChunks documents query topK = [])"
proof (intro conjI)
  show "int (length (retrieveRelevantChunks documents query topK)) \<le> topK"
    using assms by (simp add: retrieveRelevantChunks_def sliceTo_length)
next
  show "\<forall>s \<in> set (retrieveRelevantChunks documents query topK). greaterThan (relevance s) threshold"
  proof
    fix s assume "s \<in> set (retrieveRelevantChunks documents query topK)"
    then obtain x where x: "x \<in> set (sliceTo topK (sortBy byScore (collectAll documents query)))"
      and s: "s = toSource x"
      by (auto simp: retrieveRelevantChunks_def)
    from x have "x \<in> set (collectAll documents query)"
      using sliceTo_subset[of topK "sortBy byScore (collectAll documents query)"]
      by (auto simp: set_sortBy)
    then have "greaterThan (score x) threshold" by (rule collectAll_clears)
    with s show "greaterThan (relevance s) threshold" by (simp add: toSource_def)
  qed
next
  show "retrieveRelevantChunks [] query topK = []"
    by (simp add: retrieveRelevantChunks_def collectAll_def sortBy_def sliceTo_def)
next
  show "(\<forall>doc \<in> set documents. \<forall>c \<in> set (chunks doc).
            \<not> greaterThan (calculateSimilarity query c) threshold) \<longrightarrow>
        retrieveRelevantChunks documents query topK = []"
  proof
    assume none: "\<forall>doc \<in> set documents. \<forall>c \<in> set (chunks doc).
            \<not> greaterThan (calculateSimilarity query c) threshold"
    then have "collectAll documents query = []"
      by (auto simp: collectAll_scan filter_empty_conv)
    then show "retrieveRelevantChunks documents query topK = []"
      by (simp add: retrieveRelevantChunks_def sortBy_def sliceTo_def)
  qed
qed

theorem retrieve_bounds_witness:
  "(0 :: int) \<le> 3 \<and>
   int (length (retrieveRelevantChunks exampleStore ''the cat'' 3)) \<le> 3 \<and>
   list_all (\<lambda>s. greaterThan (relevance s) threshold)
     (retrieveRelevantChunks exampleStore ''the cat'' 3) \<and>
   retrieveRelevantChunks exampleStore ''the cat'' 3 \<noteq> [] \<and>
   list_all (\<lambda>doc. list_all (\<lambda>c. \<not> greaterThan (calculateSimilarity ''the cat'' c) threshold)
                      (chunks doc)) unrelatedStore \<and>
   retrieveRelevantChunks unrelatedStore ''the cat'' 3 = []"
proof -
  have h: "(0 :: int) \<le> 3" by simp
  have none: "\<forall>doc \<in> set unrelatedStore. \<forall>c \<in> set (chunks doc).
       \<not> greaterThan (calculateSimilarity ''the cat'' c) threshold"
    by (simp add: unrelatedStore_value unrelated_score threshold_def literal_values)
  have ne: "retrieveRelevantChunks exampleStore ''the cat'' 3 \<noteq> []"
    by (simp add: exampleStore_retrieve)
  from retrieve_bounds[OF h, of exampleStore "''the cat''"]
       retrieve_bounds[OF h, of unrelatedStore "''the cat''"] h none ne
  show ?thesis unfolding list_all_iff by blast
qed

text \<open>
  Claim C2 as stated, for every integer \<open>topK\<close>, fails at \<open>topK = -1\<close>: \<^verbatim>\<open>slice(0, -1)\<close> drops the
  last of the three candidates and two sources are returned.
\<close>

theorem retrieve_negative_topK_counterexample:
  "length (retrieveRelevantChunks exampleStore ''the cat'' (- 1)) = 2 \<and>
   \<not> int (length (retrieveRelevantChunks exampleStore ''the cat'' (- 1))) \<le> - 1"
  by (simp add: exampleStore_retrieve_neg)

text \<open>
  Claim C3, as amended: the document \<^verbatim>\<open>The cat sat on the mat. The dog ran fast.\<close> has the two
  sentences \<^verbatim>\<open>The cat sat on the mat\<close> and \<^verbatim>\<open> The dog ran fast\<close>; with the default parameters
  they are stored as one chunk, whose score for the query \<^verbatim>\<open>Where did the cat sit?\<close> is 0.5.
  Scored on their own, the first sentence scores 0.5857142857142856 (the double
  \<open>2637822638888433 / 2 ^ 52\<close>, from \<open>2/7 + 0.3\<close>), strictly higher than the second, 0.125.
\<close>

theorem scenarioA_scores:
  "sentencesOf ''The cat sat on the mat. The dog ran fast.'' =
     [''The cat sat on the mat'', '' The dog ran fast''] \<and>
   chunkTextDefault ''The cat sat on the mat. The dog ran fast.'' =
     [''The cat sat on the mat.  The dog ran fast''] \<and>
   calculateSimilarity ''Where did the cat sit?'' ''The cat sat on the mat.  The dog ran fast''
     = Num (1 / 2) \<and>
   calculateSimilarity ''Where did the cat sit?'' ''The cat sat on the mat''
     = Num (2637822638888433 / 4503599627370496) \<and>
   calculateSimilarity ''Where did the cat sit?'' '' The dog ran fast'' = Num (1 / 8) \<and>
   greaterThan (calculateSimilarity ''Where did the cat sit?'' ''The cat sat on the mat'')
               (calculateSimilarity ''Where did the cat sit?'' '' The dog ran fast'')"
  by code_simp

text \<open>
  Claim C3 as stated compares the chunk that contains \<^verbatim>\<open>cat sat on the mat\<close> with the chunk
  that contains \<^verbatim>\<open>dog ran fast\<close>. The document is far shorter than 500 characters, so both
  sentences are in the same and only chunk, and its score is not above itself.
\<close>

theorem scenarioA_single_chunk_counterexample:
  "chunkTextDefault ''The cat sat on the mat. The dog ran fast.'' =
     [''The cat sat on the mat.  The dog ran fast''] \<and>
   str_includes ''The cat sat on the mat.  The dog ran fast'' ''cat sat on the mat'' \<and>
   str_includes ''The cat sat on the mat.  The dog ran fast'' ''dog ran fast'' \<and>
   \<not> greaterThan
       (calculateSimilarity ''Where did the cat sit?'' ''The cat sat on the mat.  The dog ran fast'')
       (calculateSimilarity ''Where did the cat sit?'' ''The cat sat on the mat.  The dog ran fast'')"
  by code_simp

text \<open>
  Claim C4, as amended: the phrases are the matches of the word, white space, word pattern in
  the lowercased query from left to right, each attempt starting where the last match ended.
  In a query of words separated by single spaces these are the first word with the second, the
  third with the fourth, and so on. The boost starts at 0, and every match that is a substring
  of the lowercased chunk adds the double 0.3 to it in double arithmetic, a repeated phrase each
  time it is matched: with \<open>n\<close> such matches the boost is 0.3 added \<open>n\<close> times, each sum rounded
  (three matches give 0.8999999999999999). The clamp keeps the score from exceeding 1.
\<close>

theorem phraseBoost_matches:
  "((\<forall>w \<in> set ws. w \<noteq> [] \<and> list_all isWordChar w) \<longrightarrow>
      queryPhrases (join '' '' ws) = pairUp (map toLowerCase ws)) \<and>
   phraseBoost query text =
     ((\<lambda>boost. plusNumber boost literal03)
        ^^ length (filter (str_includes (toLowerCase text)) (queryPhrases query))) (Num 0) \<and>
   \<not> greaterThan (calculateSimilarity query text) (Num 1)"
  by (simp add: queryPhrases_words phraseBoost_count calculateSimilarity_clamped)

text \<open>
  The query \<^verbatim>\<open>a b c d e f xyz\<close> has the phrases \<^verbatim>\<open>a b\<close>, \<^verbatim>\<open>c d\<close> and \<^verbatim>\<open>e f\<close> and the one token
  \<^verbatim>\<open>xyz\<close>; the chunk below contains the three phrases and has ten tokens, so the jaccard
  term is 0.1, the boost 0.8999999999999999 and the score 0.9999999999999999, below the clamp.
\<close>

theorem phraseBoost_matches_witness:
  "list_all (\<lambda>w. w \<noteq> [] \<and> list_all isWordChar w) [''a'', ''b'', ''c'', ''d'', ''e'', ''f'', ''xyz''] \<and>
   queryPhrases ''a b c d e f xyz'' = [''a b'', ''c d'', ''e f''] \<and>
   phraseBoost ''a b c d e f xyz''
     ''a b c d e f xyz lorem ipsum dolor amet consectetur adipiscing elit eiusmod tempor''
     = Num (2026619832316723 / 2251799813685248) \<and>
   calculateSimilarity ''a b c d e f xyz''
     ''a b c d e f xyz lorem ipsum dolor amet consectetur adipiscing elit eiusmod tempor''
     = Num (9007199254740991 / 9007199254740992) \<and>
   \<not> greaterThan (calculateSimilarity ''a b c d e f xyz''
     ''a b c d e f xyz lorem ipsum dolor amet consectetur adipiscing elit eiusmod tempor'') (Num 1)"
proof -
  let ?ws = "[''a'', ''b'', ''c'', ''d'', ''e'', ''f'', ''xyz'']"
  let ?q = "''a b c d e f xyz''"
  let ?t = "''a b c d e f xyz lorem ipsum dolor amet consectetur adipiscing elit eiusmod tempor''"
  have h: "\<forall>w \<in> set ?ws. w \<noteq> [] \<and> list_all isWordChar w"
    by code_simp
  have j: "join '' '' ?ws = ?q"
    by simp
  have p: "pairUp (map toLowerCase ?ws) = [''a b'', ''c d'', ''e f'']"
    by code_simp
  have i: "length (filter (str_includes (toLowerCase ?t)) [''a b'', ''c d'', ''e f'']) = 3"
    by code_simp
  have three: "((\<lambda>boost. plusNumber boost literal03) ^^ 3) (Num 0)
                 = Num (2026619832316723 / 2251799813685248)"
    by code_simp
  have s: "calculateSimilarity ?q ?t = Num (9007199254740991 / 9007199254740992)"
    by code_simp
  from phraseBoost_matches[of ?ws ?q ?t] h
  have q: "queryPhrases ?q = [''a b'', ''c d'', ''e f'']"
    and b: "phraseBoost ?q ?t =
       ((\<lambda>boost. plusNumber boost literal03)
          ^^ length (filter (str_includes (toLowerCase ?t)) (queryPhrases ?q))) (Num 0)"
    and c: "\<not> greaterThan (calculateSimilarity ?q ?t) (Num 1)"
    unfolding j p by blast+
  from b have "phraseBoost ?q ?t = Num (2026619832316723 / 2251799813685248)"
    unfolding q i three .
  with h q s c show ?thesis unfolding list_all_iff by blast
qed

text \<open>
  Claim C4 as stated takes all adjacent two-word sequences of the query. In \<^verbatim>\<open>one two three\<close>
  the match \<^verbatim>\<open>one two\<close> uses up the word \<^verbatim>\<open>two\<close>; \<^verbatim>\<open>two three\<close> is no phrase although it is a
  substring of the chunk \<^verbatim>\<open>two three\<close>, and the boost is 0, not 0.3: the score is the jaccard
  term alone, the double 0.6666666666666666.
\<close>

theorem phraseBoost_middle_pair_counterexample:
  "toLowerCase ''one two three'' = ''one two three'' \<and>
   str_includes (toLowerCase ''two three'') ''two three'' \<and>
   queryPhrases ''one two three'' = [''one two''] \<and>
   phraseBoost ''one two three'' ''two three'' = Num 0 \<and>
   calculateSimilarity ''one two three'' ''two three'' = Num (6004799503160661 / 9007199254740992)"
  by code_simp

text \<open>
  Claim C5: for every non-empty text, and for every chunk size and overlap (the defaults 500
  and 50 among them), \<^verbatim>\<open>chunkText\<close> returns a non-empty list of non-empty strings, and when the
  loop over the sentences leaves no chunk the result is the text itself as the only chunk.
\<close>

theorem chunkText_nonempty:
  assumes "t \<noteq> []"
  shows "chunkText t chunkSize overlap \<noteq> [] \<and>
         (\<forall>c \<in> set (chunkText t chunkSize overlap). c \<noteq> []) \<and>
         (accumulate t chunkSize overlap = [] \<longrightarrow> chunkText t chunkSize overlap = [t])"
  using assms accumulate_nonempty_chunks[of _ t chunkSize overlap]
  by (auto simp: chunkText_def Let_def)

theorem chunkText_nonempty_witness:
  "''.'' \<noteq> [] \<and> accumulate ''.'' 500 50 = [] \<and> chunkText ''.'' 500 50 = [''.''] \<and>
   chunkText ''Hi there. Bye'' 500 50 = [''Hi there.  Bye''] \<and>
   list_all (\<lambda>c. c \<noteq> []) (chunkText ''Hi there. Bye'' 500 50)"
proof -
  have h: "''.'' \<noteq> []" by simp
  have h2: "''Hi there. Bye'' \<noteq> []" by simp
  have a: "accumulate ''.'' 500 50 = []" by code_simp
  have b: "chunkText ''Hi there. Bye'' 500 50 = [''Hi there.  Bye'']" by code_simp
  from chunkText_nonempty[OF h, of 500 50] chunkText_nonempty[OF h2, of 500 50] a b h
  show ?thesis unfolding list_all_iff by blast
qed

text \<open>
  Claim C6: with chunk size 500 and overlap 50, a sentence of 1200 characters without \<^verbatim>\<open>.\<close>,
  \<^verbatim>\<open>!\<close> and \<^verbatim>\<open>?\<close> gives exactly one chunk, and that chunk is longer than the chunk size. The
  chunker pushes the chunk trimmed, so the statement is for a sentence that keeps more than 500
  characters when the white space at its ends is removed; the sentence that \<^verbatim>\<open>handleUpload\<close>
  passes on is already trimmed (\<open>handleUpload_long_sentence\<close>), and the chunk is then the whole
  sentence. No sentence is split: for every text \<open>t'\<close> and all parameters, every sentence of
  \<open>t'\<close>, trimmed, lies whole in some chunk.
\<close>

theorem long_sentence_one_chunk:
  assumes "length t = 1200" and "\<forall>c \<in> set t. \<not> isSentenceEnd c" and "500 < length (trim t)"
  shows "chunkText t 500 50 = [trim t] \<and>
         length (chunkText t 500 50) = 1 \<and>
         list_all (\<lambda>c. 500 < length c) (chunkText t 500 50) \<and>
         (trim t = t \<longrightarrow> chunkText t 500 50 = [t]) \<and>
         (\<forall>s \<in> set (sentencesOf t'). \<exists>c \<in> set (chunkText t' chunkSize overlap). sublist (trim s) c)"
proof -
  from assms(3) have "trim t \<noteq> []" by auto
  with assms(2) have one: "chunkText t 500 50 = [trim t]"
    by (simp add: chunkText_one)
  have "\<forall>s \<in> set (sentencesOf t'). \<exists>c \<in> set (chunkText t' chunkSize overlap). sublist (trim s) c"
    by (auto intro: sentence_in_chunk)
  with one assms(3) show ?thesis by simp
qed

theorem long_sentence_one_chunk_witness:
  "length (replicate 1200 (CHR ''a'')) = 1200 \<and>
   list_all (\<lambda>c. \<not> isSentenceEnd c) (replicate 1200 (CHR ''a'')) \<and>
   500 < length (trim (replicate 1200 (CHR ''a''))) \<and>
   trim (replicate 1200 (CHR ''a'')) = replicate 1200 (CHR ''a'') \<and>
   chunkText (replicate 1200 (CHR ''a'')) 500 50 = [replicate 1200 (CHR ''a'')] \<and>
   list_all (\<lambda>c. 500 < length c) (chunkText (replicate 1200 (CHR ''a'')) 500 50) \<and>
   sentencesOf ''Hi there. Bye'' = [''Hi there'', '' Bye''] \<and>
   list_all (\<lambda>s. list_ex (sublist (trim s)) (chunkText ''Hi there. Bye'' 500 50))
     (sentencesOf ''Hi there. Bye'')"
proof -
  have l: "length (replicate 1200 (CHR ''a'')) = 1200" by simp
  have p: "\<forall>c \<in> set (replicate 1200 (CHR ''a'')). \<not> isSentenceEnd c"
    by (simp add: char_facts)
  have tr: "trim (replicate 1200 (CHR ''a'')) = replicate 1200 (CHR ''a'')"
    by (rule trim_no_space_ends) (simp_all add: char_facts)
  have g: "500 < length (trim (replicate 1200 (CHR ''a'')))"
    unfolding tr by simp
  have s: "sentencesOf ''Hi there. Bye'' = [''Hi there'', '' Bye'']" by code_simp
  from long_sentence_one_chunk[OF l p g, of "''Hi there. Bye''" 500 50] l p g tr s
  show ?thesis unfolding list_all_iff list_ex_iff by metis
qed

text \<open>
  Claim C7: for every query and store, the sources returned by the retriever are sorted by
  relevance in descending order. (With \<open>greaterEq\<close>, which is false on \<open>NaN\<close>, this also says
  that among two or more returned relevances none is \<open>NaN\<close>.)
\<close>

theorem retrieve_sorted:
  "sorted_wrt (\<lambda>a b. greaterEq (relevance a) (relevance b))
     (retrieveRelevantChunks documents query topK)"
proof -
  have "sorted_wrt (\<lambda>a b. greaterEq (score a) (score b))
          (sliceTo topK (sortBy byScore (collectAll documents query)))"
    by (rule sorted_wrt_sliceTo) (rule sorted_candidates)
  then show ?thesis
    by (simp add: retrieveRelevantChunks_def sorted_wrt_map toSource_def)
qed

text \<open>
  Claim C8: \<^verbatim>\<open>deleteDocument\<close> with an id that no document of the store has leaves the store as
  it is, the same documents in the same order. The function is total: there is no error to raise.
\<close>

theorem deleteDocument_unknown_id:
  "i \<notin> set (map doc_id documents) \<Longrightarrow> deleteDocument i documents = documents"
  by (induction documents) (auto simp: deleteDocument_def)

theorem deleteDocument_unknown_id_witness:
  "''9'' \<notin> set (map doc_id exampleStore) \<and> deleteDocument ''9'' exampleStore = exampleStore"
proof -
  have h: "''9'' \<notin> set (map doc_id exampleStore)"
    by (simp add: exampleStore_value)
  from h deleteDocument_unknown_id[OF h] show ?thesis by simp
qed

text \<open>
  Claim C9 says that the size of the created document is the byte length of its content and
  that its id is unique in the store. The code stores \<^verbatim>\<open>content.length\<close>, the number of code
  units, which is 1 for the content \<^verbatim>\<open>U+00E9\<close> of two bytes, and takes the clock reading as id,
  so two documents added at the same reading 5 share the id \<^verbatim>\<open>5\<close>.
\<close>

theorem addDocument_size_and_id:
  "map doc_size (addDocument 5 5 ''cafe'' [CHR 0xE9] []) = [1] \<and>
   utf8ByteLength [CHR 0xE9] = 2 \<and>
   map doc_id (addDocument 5 6 ''second'' ''y'' (addDocument 5 5 ''first'' ''x'' [])) = [''5'', ''5'']"
  by code_simp

text \<open>
  Claim C10: the sources of equal relevance come out in the order of the scan, document after
  document in the order of the store and, within a document, chunk after chunk. For each value
  \<open>r\<close>, the returned sources of relevance \<open>r\<close> are an initial part of the candidates of relevance
  \<open>r\<close> listed in that order.
\<close>

theorem retrieve_ties_in_scan_order:
  "prefix
     (filter (\<lambda>s. relevance s = r) (retrieveRelevantChunks documents query topK))
     (filter (\<lambda>s. relevance s = r)
        (concat (map (\<lambda>doc.
           map (\<lambda>c. \<lparr>title = doc_title doc, content = c, relevance = calculateSimilarity query c\<rparr>)
               (filter (\<lambda>c. greaterThan (calculateSimilarity query c) threshold) (chunks doc)))
         documents)))"
proof -
  let ?all = "collectAll documents query"
  let ?sorted = "sortBy byScore ?all"
  have rel: "(\<lambda>s. relevance s = r) \<circ> toSource = (\<lambda>c. score c = r)"
    by (auto simp: toSource_def)
  have "prefix (sliceTo topK ?sorted) ?sorted" by (rule sliceTo_prefix)
  then have "prefix (filter (\<lambda>c. score c = r) (sliceTo topK ?sorted)) (filter (\<lambda>c. score c = r) ?sorted)"
    by (rule filter_mono_prefix)
  then have "prefix (filter (\<lambda>c. score c = r) (sliceTo topK ?sorted)) (filter (\<lambda>c. score c = r) ?all)"
    by (simp add: sortBy_stable)
  then have "prefix (map toSource (filter (\<lambda>c. score c = r) (sliceTo topK ?sorted)))
                    (map toSource (filter (\<lambda>c. score c = r) ?all))"
    by (rule map_mono_prefix)
  then have "prefix (filter (\<lambda>s. relevance s = r) (map toSource (sliceTo topK ?sorted)))
                    (filter (\<lambda>s. relevance s = r) (map toSource ?all))"
    by (simp add: filter_map rel)
  moreover have "map toSource ?all =
      concat (map (\<lambda>doc.
           map (\<lambda>c. \<lparr>title = doc_title doc, content = c, relevance = calculateSimilarity query c\<rparr>)
               (filter (\<lambda>c. greaterThan (calculateSimilarity query c) threshold) (chunks doc)))
         documents)"
    by (simp add: collectAll_scan map_concat comp_def toSource_def)
  ultimately show ?thesis by (simp add: retrieveRelevantChunks_def)
qed

end
